theory Spec2Isabelle
  imports Main "HOL-Library.List_Lexorder" "HOL-Library.Char_ord"
begin

section \<open>Live scoreboard: score service, anti-cheat service, leaderboard query\<close>

text \<open>
  A shallow embedding of the score-update path of the live scoreboard
  (\<^verbatim>\<open>ScoreService\<close>, \<^verbatim>\<open>AntiCheatService\<close>, \<^verbatim>\<open>CacheManager.calculateLeaderboard\<close>).

  Conventions of the model:
  \<^item> a \<^verbatim>\<open>Date\<close> is its \<^verbatim>\<open>getTime()\<close> value, an \<open>int\<close> of milliseconds;
  \<^item> scores and increments are \<open>int\<close> (the column type is INTEGER);
  \<^item> one call reads the clock several times (\<^verbatim>\<open>new Date()\<close>, \<^verbatim>\<open>Date.now()\<close>); the
    model takes all readings of one call as the one instant \<open>now\<close>;
  \<^item> a table is a map from its unique key to the row (\<^verbatim>\<open>Action.id\<close> is the primary
    key, \<^verbatim>\<open>Score.userId\<close> is unique); \<^verbatim>\<open>ScoreHistory\<close> is the list of its rows,
    oldest first;
  \<^item> a Redis key with a time to live is stored with its deadline; a read at or after
    the deadline finds nothing;
  \<^item> a thrown \<^verbatim>\<open>Error\<close> is an \<open>Inl\<close> result; the state returned with it is the state
    after the handler of \<open>updateScore\<close>: the writes of a transaction that was not
    committed are gone, the writes made to Redis stay;
  \<^item> a \<^verbatim>\<open>Score\<close> instance is its row together with the associated user, present
    only when the query that loaded the instance included it.
\<close>

subsection \<open>Rows, requests, results\<close>

datatype action_status = Pending | Completed | Failed

record action_row =
  a_userId :: string
  a_actionType :: string
  a_status :: action_status
  a_token :: string
  a_createdAt :: int
  a_expiresAt :: int
  a_completedAt :: "int option"

record score_row =
  currentScore :: int
  totalActions :: int
  lastUpdated :: int

record score_instance =
  i_row :: score_row
  i_user :: "string option"

record metadata =
  actionType :: string
  duration :: int
  checksum :: string

record score_update_request =
  userId :: string
  actionId :: string
  scoreIncrement :: int
  timestamp :: int
  meta :: metadata

record history_row =
  h_userId :: string
  h_actionId :: string
  h_scoreChange :: int
  h_previousScore :: int
  h_newScore :: int
  h_timestamp :: int
  h_metadata :: metadata

record 'r score_event =
  e_userId :: string
  e_username :: string
  e_oldScore :: int
  e_newScore :: int
  e_oldRank :: 'r
  e_newRank :: 'r
  e_timestamp :: int

record 'r update_result =
  success :: bool
  newScore :: int
  rank :: 'r
  previousRank :: 'r

record suspicious_note =
  n_timestamp :: int
  n_request :: score_update_request
  n_reason :: string

record token_grant =
  g_actionId :: string
  g_token :: string
  g_expiresAt :: int

text \<open>
  The errors the service throws, one constructor for each message; the errors of the
  store: \<open>StoreConflict\<close> stands for an error raised by a statement of the
  transaction (a lock or serialisation failure), \<open>UniqueConstraint\<close> for an insert
  that repeats a primary key, \<open>TransactionFinished\<close> for the error of
  \<^verbatim>\<open>rollback()\<close> called on a transaction that is finished; and \<open>TypeError\<close>, the
  error of reading a property of \<^verbatim>\<open>undefined\<close>.
\<close>

datatype error =
    InvalidOrExpiredActionToken
  | ScoreUpdateFailedValidation
  | UserScoreNotFound
  | StoreConflict
  | UniqueConstraint
  | TransactionFinished
  | TypeError

subsection \<open>Redis keys with a time to live\<close>

type_synonym 'v kv = "string \<rightharpoonup> ('v \<times> int option)"

definition redis_get :: "int \<Rightarrow> 'v kv \<Rightarrow> string \<Rightarrow> 'v option" where
  "redis_get now m k =
     (case m k of
        None \<Rightarrow> None
      | Some (v, None) \<Rightarrow> Some v
      | Some (v, Some deadline) \<Rightarrow> (if now < deadline then Some v else None))"

definition redis_setex :: "int \<Rightarrow> 'v kv \<Rightarrow> string \<Rightarrow> int \<Rightarrow> 'v \<Rightarrow> 'v kv" where
  "redis_setex now m k seconds v = m(k \<mapsto> (v, Some (now + seconds * 1000)))"

definition redis_incr :: "int \<Rightarrow> int kv \<Rightarrow> string \<Rightarrow> int kv" where
  "redis_incr now m k =
     (case m k of
        None \<Rightarrow> m(k \<mapsto> (1, None))
      | Some (v, None) \<Rightarrow> m(k \<mapsto> (v + 1, None))
      | Some (v, Some deadline) \<Rightarrow>
          (if now < deadline then m(k \<mapsto> (v + 1, Some deadline)) else m(k \<mapsto> (1, None))))"

definition redis_expire :: "int \<Rightarrow> 'v kv \<Rightarrow> string \<Rightarrow> int \<Rightarrow> 'v kv" where
  "redis_expire now m k seconds =
     (case redis_get now m k of
        None \<Rightarrow> m
      | Some v \<Rightarrow> m(k \<mapsto> (v, Some (now + seconds * 1000))))"

subsection \<open>The state: the three tables, Redis, the leaderboard service, the queue\<close>

text \<open>
  \<^verbatim>\<open>LeaderboardService\<close> and \<^verbatim>\<open>QueuePublisher\<close> are used by the score service and
  defined elsewhere. The leaderboard service is a parameter: a state of type \<open>'lb\<close>,
  a rank type \<open>'r\<close> and its two operations. The queue is the list of the events
  published on \<^verbatim>\<open>score.updated\<close>, oldest first. The digest and the text that a
  template string gives for a number are parameters too.
\<close>

record ('lb, 'r) state =
  scores :: "string \<rightharpoonup> score_row"
  history :: "history_row list"
  actions :: "string \<rightharpoonup> action_row"
  last_action :: "int kv"
  action_count :: "int kv"
  suspicious :: "suspicious_note kv"
  user_score :: "int kv"
  leaderboard :: 'lb
  published :: "'r score_event list"

record ('lb, 'r) env =
  sha256_hex :: "string \<Rightarrow> string"
  number_text :: "int \<Rightarrow> string"
  CHECKSUM_SECRET :: string
  getUserRank :: "'lb \<Rightarrow> string \<Rightarrow> 'r"
  updateUserScore :: "'lb \<Rightarrow> string \<Rightarrow> int \<Rightarrow> 'r \<times> 'lb"

subsection \<open>Action tokens\<close>

text \<open>
  \<^verbatim>\<open>generateActionToken\<close>: the identifier and the token come from the random source
  and are arguments here. \<^verbatim>\<open>Action.create\<close> fails when the identifier is taken.
\<close>

definition generateActionToken ::
  "int \<Rightarrow> string \<Rightarrow> string \<Rightarrow> ('lb, 'r) state \<Rightarrow> string \<Rightarrow> string
     \<Rightarrow> (error + token_grant) \<times> ('lb, 'r) state" where
  "generateActionToken now randomUUID randomHex s uid kind =
     (let actionId = randomUUID;
          token = randomHex;
          expiresAt = now + 300000
      in if actions s actionId \<noteq> None then (Inl UniqueConstraint, s)
         else (Inr \<lparr>g_actionId = actionId, g_token = token, g_expiresAt = expiresAt\<rparr>,
               s\<lparr>actions := (actions s)(actionId \<mapsto>
                    \<lparr>a_userId = uid, a_actionType = kind, a_status = Pending,
                     a_token = token, a_createdAt = now, a_expiresAt = expiresAt,
                     a_completedAt = None\<rparr>)\<rparr>))"

text \<open>
  \<^verbatim>\<open>validateActionToken\<close>: the row with this id is the one found when its user, its
  token and its status match; the found row is refused when the clock is past
  \<^verbatim>\<open>expiresAt\<close>.
\<close>

definition findPendingAction ::
  "(string \<rightharpoonup> action_row) \<Rightarrow> string \<Rightarrow> string \<Rightarrow> string \<Rightarrow> action_row option" where
  "findPendingAction tbl aid uid token =
     (case tbl aid of
        None \<Rightarrow> None
      | Some a \<Rightarrow>
          (if a_userId a = uid \<and> a_token a = token \<and> a_status a = Pending
           then Some a else None))"

definition validateActionToken ::
  "int \<Rightarrow> (string \<rightharpoonup> action_row) \<Rightarrow> string \<Rightarrow> string \<Rightarrow> string \<Rightarrow> error + action_row" where
  "validateActionToken now tbl token aid uid =
     (case findPendingAction tbl aid uid token of
        None \<Rightarrow> Inl InvalidOrExpiredActionToken
      | Some action \<Rightarrow>
          (if now > a_expiresAt action then Inl InvalidOrExpiredActionToken
           else Inr action))"

subsection \<open>Anti-cheat service\<close>

record validation_request =
  v_userId :: string
  v_scoreIncrement :: int
  v_actionType :: string
  v_timestamp :: int
  v_checksum :: string

definition maxScorePerAction :: int where "maxScorePerAction = 100"
definition minTimeBetweenActions :: int where "minTimeBetweenActions = 1000"
definition maxActionsPerHour :: int where "maxActionsPerHour = 100"
definition rapidFireThreshold :: int where "rapidFireThreshold = 10"
definition scoreVelocityLimit :: int where "scoreVelocityLimit = 1000"

definition validateChecksum :: "('lb, 'r) env \<Rightarrow> validation_request \<Rightarrow> bool" where
  "validateChecksum env request =
     (let expectedChecksum =
            sha256_hex env
              (v_userId request @ '':'' @ v_actionType request @ '':'' @
               number_text env (v_scoreIncrement request) @ '':'' @ CHECKSUM_SECRET env)
      in v_checksum request = expectedChecksum)"

definition getLastActionTime :: "int \<Rightarrow> ('lb, 'r) state \<Rightarrow> string \<Rightarrow> int option" where
  "getLastActionTime now s uid = redis_get now (last_action s) (''last_action:'' @ uid)"

definition getActionCount :: "int \<Rightarrow> ('lb, 'r) state \<Rightarrow> string \<Rightarrow> int \<Rightarrow> int" where
  "getActionCount now s uid windowSeconds =
     (case redis_get now (action_count s) (''action_count:'' @ uid) of
        None \<Rightarrow> 0
      | Some c \<Rightarrow> c)"

definition recentRows :: "int \<Rightarrow> ('lb, 'r) state \<Rightarrow> string \<Rightarrow> int \<Rightarrow> history_row list" where
  "recentRows now s uid windowSeconds =
     (let since = now - windowSeconds * 1000
      in filter (\<lambda>h. h_userId h = uid \<and> h_timestamp h \<ge> since) (history s))"

definition getRecentActions :: "int \<Rightarrow> ('lb, 'r) state \<Rightarrow> string \<Rightarrow> int \<Rightarrow> history_row list" where
  "getRecentActions now s uid windowSeconds =
     sort_key (\<lambda>h. - h_timestamp h) (recentRows now s uid windowSeconds)"

definition calculateScoreVelocity :: "int \<Rightarrow> ('lb, 'r) state \<Rightarrow> string \<Rightarrow> int \<Rightarrow> int" where
  "calculateScoreVelocity now s uid windowSeconds =
     sum_list (map h_scoreChange (recentRows now s uid windowSeconds))"

definition detectSuspiciousPatterns ::
  "int \<Rightarrow> ('lb, 'r) state \<Rightarrow> validation_request \<Rightarrow> bool" where
  "detectSuspiciousPatterns now s request =
     (let recentActions = getRecentActions now s (v_userId request) 60
      in if int (length recentActions) > rapidFireThreshold then True
         else calculateScoreVelocity now s (v_userId request) 3600 > scoreVelocityLimit)"

definition recordAction ::
  "int \<Rightarrow> ('lb, 'r) state \<Rightarrow> validation_request \<Rightarrow> ('lb, 'r) state" where
  "recordAction now s request =
     (let key = ''last_action:'' @ v_userId request;
          countKey = ''action_count:'' @ v_userId request
      in s\<lparr>last_action := redis_setex now (last_action s) key 3600 (v_timestamp request),
           action_count :=
             redis_expire now (redis_incr now (action_count s) countKey) countKey 3600\<rparr>)"

definition tooSoon :: "int \<Rightarrow> ('lb, 'r) state \<Rightarrow> validation_request \<Rightarrow> bool" where
  "tooSoon now s request =
     (case getLastActionTime now s (v_userId request) of
        None \<Rightarrow> False
      | Some lastActionTime \<Rightarrow>
          v_timestamp request - lastActionTime < minTimeBetweenActions)"

definition validateScoreUpdate ::
  "('lb, 'r) env \<Rightarrow> int \<Rightarrow> ('lb, 'r) state \<Rightarrow> validation_request
     \<Rightarrow> bool \<times> ('lb, 'r) state" where
  "validateScoreUpdate env now s request =
     (if \<not> validateChecksum env request then (False, s)
      else if v_scoreIncrement request > maxScorePerAction then (False, s)
      else if tooSoon now s request then (False, s)
      else if getActionCount now s (v_userId request) 3600 \<ge> maxActionsPerHour
        then (False, s)
      else if detectSuspiciousPatterns now s request then (False, s)
      else (True, recordAction now s request))"





subsection \<open>Score service\<close>

definition updateScoreCache ::
  "int \<Rightarrow> ('lb, 'r) state \<Rightarrow> string \<Rightarrow> int \<Rightarrow> ('lb, 'r) state" where
  "updateScoreCache now s uid score =
     s\<lparr>user_score := redis_setex now (user_score s) (''user_score:'' @ uid) 300 score\<rparr>"

definition publishScoreUpdate :: "('lb, 'r) state \<Rightarrow> 'r score_event \<Rightarrow> ('lb, 'r) state" where
  "publishScoreUpdate s ev = s\<lparr>published := published s @ [ev]\<rparr>"

definition flagSuspiciousActivity ::
  "int \<Rightarrow> ('lb, 'r) state \<Rightarrow> string \<Rightarrow> score_update_request \<Rightarrow> ('lb, 'r) state" where
  "flagSuspiciousActivity now s uid request =
     s\<lparr>suspicious :=
         redis_setex now (suspicious s) (''suspicious:'' @ uid) 86400
           \<lparr>n_timestamp = now, n_request = request,
            n_reason = ''Failed anti-cheat validation''\<rparr>\<rparr>"

definition validation_of :: "score_update_request \<Rightarrow> validation_request" where
  "validation_of request =
     \<lparr>v_userId = userId request,
      v_scoreIncrement = scoreIncrement request,
      v_actionType = actionType (meta request),
      v_timestamp = timestamp request,
      v_checksum = checksum (meta request)\<rparr>"

text \<open>
  The statements that \<open>updateScore\<close> runs through its transaction, in their order. A
  call is given the statement at which the store raises an error, if any
  (\<open>None\<close>: the store raises none). A commit that raises is taken to have written
  nothing.
\<close>

datatype db_step = FindAction | FindScore | UpdateScore | CreateHistory | UpdateAction | Commit

text \<open>
  The handler of \<open>updateScore\<close> is \<^verbatim>\<open>await transaction.rollback(); throw error\<close>. On a
  transaction that is finished (\<^verbatim>\<open>commit()\<close> has been called, whether it succeeded or
  raised) \<^verbatim>\<open>rollback()\<close> rejects, and its error leaves the handler in place of the
  caught one.
\<close>

definition rethrown :: "bool \<Rightarrow> error \<Rightarrow> error" where
  "rethrown finished e = (if finished then TransactionFinished else e)"

text \<open>
  \<^verbatim>\<open>Score.findOne({ where: { userId }, transaction, lock })\<close>: the query names no
  \<^verbatim>\<open>include\<close>, so the instance comes without its user.
\<close>

definition findScore :: "(string \<rightharpoonup> score_row) \<Rightarrow> string \<Rightarrow> score_instance option" where
  "findScore tbl uid =
     (case tbl uid of
        None \<Rightarrow> None
      | Some row \<Rightarrow> Some \<lparr>i_row = row, i_user = None\<rparr>)"

text \<open>
  \<open>commitUpdate\<close> is the state after \<^verbatim>\<open>transaction.commit()\<close>: the three writes of the
  transaction.
\<close>

definition commitUpdate ::
  "int \<Rightarrow> ('lb, 'r) state \<Rightarrow> score_update_request \<Rightarrow> score_row \<Rightarrow> action_row
     \<Rightarrow> ('lb, 'r) state" where
  "commitUpdate now s request row action =
     (let previousScore = currentScore row;
          newScore = previousScore + scoreIncrement request
      in s\<lparr>scores := (scores s)(userId request \<mapsto>
              row\<lparr>currentScore := newScore, lastUpdated := now,
                  totalActions := totalActions row + 1\<rparr>),
           history := history s @
             [\<lparr>h_userId = userId request, h_actionId = actionId request,
               h_scoreChange = scoreIncrement request, h_previousScore = previousScore,
               h_newScore = newScore, h_timestamp = timestamp request,
               h_metadata = meta request\<rparr>],
           actions := (actions s)(actionId request \<mapsto>
              action\<lparr>a_status := Completed, a_completedAt := Some now\<rparr>)\<rparr>)"

text \<open>
  \<open>continueUpdate\<close> is \<open>updateScore\<close> from the point where \<open>validateActionToken\<close>
  has returned the action. After the commit the score cache and the leaderboard are
  updated; then the event to publish is built, which reads the name of the
  instance's user.
\<close>

definition continueUpdate ::
  "('lb, 'r) env \<Rightarrow> int \<Rightarrow> db_step option \<Rightarrow> ('lb, 'r) state \<Rightarrow> score_update_request
     \<Rightarrow> action_row \<Rightarrow> (error + 'r update_result) \<times> ('lb, 'r) state" where
  "continueUpdate env now fault s request action =
     (case validateScoreUpdate env now s (validation_of request) of
        (isValid, s1) \<Rightarrow>
          if \<not> isValid
          then (Inl (rethrown False ScoreUpdateFailedValidation),
                flagSuspiciousActivity now s1 (userId request) request)
          else if fault = Some FindScore then (Inl (rethrown False StoreConflict), s1)
          else
            (case findScore (scores s1) (userId request) of
               None \<Rightarrow> (Inl (rethrown False UserScoreNotFound), s1)
             | Some inst \<Rightarrow>
                 let previousScore = currentScore (i_row inst);
                     previousRank = getUserRank env (leaderboard s1) (userId request);
                     newScore = previousScore + scoreIncrement request
                 in if fault \<in> {Some UpdateScore, Some CreateHistory, Some UpdateAction}
                    then (Inl (rethrown False StoreConflict), s1)
                    else if fault = Some Commit
                    then (Inl (rethrown True StoreConflict), s1)
                    else
                      let s2 = commitUpdate now s1 request (i_row inst) action;
                          s3 = updateScoreCache now s2 (userId request) newScore;
                          (newRank, lb) =
                            updateUserScore env (leaderboard s3) (userId request) newScore;
                          s4 = s3\<lparr>leaderboard := lb\<rparr>
                      in case i_user inst of
                           None \<Rightarrow> (Inl (rethrown True TypeError), s4)
                         | Some name \<Rightarrow>
                             let s5 = publishScoreUpdate s4
                                        \<lparr>e_userId = userId request,
                                         e_username = name,
                                         e_oldScore = previousScore,
                                         e_newScore = newScore,
                                         e_oldRank = previousRank,
                                         e_newRank = newRank,
                                         e_timestamp = now\<rparr>
                             in (Inr \<lparr>success = True, newScore = newScore, rank = newRank,
                                      previousRank = previousRank\<rparr>, s5)))"

definition updateScore ::
  "('lb, 'r) env \<Rightarrow> int \<Rightarrow> db_step option \<Rightarrow> ('lb, 'r) state \<Rightarrow> score_update_request
     \<Rightarrow> string \<Rightarrow> (error + 'r update_result) \<times> ('lb, 'r) state" where
  "updateScore env now fault s request actionToken =
     (if fault = Some FindAction then (Inl (rethrown False StoreConflict), s)
      else
        case validateActionToken now (actions s) actionToken (actionId request)
               (userId request) of
          Inl e \<Rightarrow> (Inl (rethrown False e), s)
        | Inr action \<Rightarrow> continueUpdate env now fault s request action)"

text \<open>
  A call passes the checks when its token is good, the anti-cheat check accepts and
  the score row exists; it commits when, moreover, the store raises no error: then
  \<^verbatim>\<open>transaction.commit()\<close> is reached and succeeds.
\<close>

definition passesChecks ::
  "('lb, 'r) env \<Rightarrow> int \<Rightarrow> ('lb, 'r) state \<Rightarrow> score_update_request \<Rightarrow> string \<Rightarrow> bool" where
  "passesChecks env now s request actionToken =
     (case validateActionToken now (actions s) actionToken (actionId request)
             (userId request) of
        Inl e \<Rightarrow> False
      | Inr action \<Rightarrow>
          fst (validateScoreUpdate env now s (validation_of request)) \<and>
          scores s (userId request) \<noteq> None)"

definition commits ::
  "('lb, 'r) env \<Rightarrow> int \<Rightarrow> db_step option \<Rightarrow> ('lb, 'r) state \<Rightarrow> score_update_request
     \<Rightarrow> string \<Rightarrow> bool" where
  "commits env now fault s request actionToken =
     (fault = None \<and> passesChecks env now s request actionToken)"

subsection \<open>A sequence of calls\<close>

record call =
  c_now :: int
  c_fault :: "db_step option"
  c_request :: score_update_request
  c_token :: string

definition submit ::
  "('lb, 'r) env \<Rightarrow> ('lb, 'r) state \<Rightarrow> call
     \<Rightarrow> (error + 'r update_result) \<times> ('lb, 'r) state" where
  "submit env s c = updateScore env (c_now c) (c_fault c) s (c_request c) (c_token c)"

fun run :: "('lb, 'r) env \<Rightarrow> ('lb, 'r) state \<Rightarrow> call list \<Rightarrow> ('lb, 'r) state" where
  "run env s [] = s"
| "run env s (c # cs) = run env (snd (submit env s c)) cs"

text \<open>The requests of the calls that committed, in the order of the calls.\<close>

fun accepted ::
  "('lb, 'r) env \<Rightarrow> ('lb, 'r) state \<Rightarrow> call list \<Rightarrow> score_update_request list" where
  "accepted env s [] = []"
| "accepted env s (c # cs) =
     (if commits env (c_now c) (c_fault c) s (c_request c) (c_token c)
      then c_request c # accepted env (snd (submit env s c)) cs
      else accepted env (snd (submit env s c)) cs)"

subsection \<open>Two calls that overlap\<close>

text \<open>
  Two calls in flight at once, in the schedule in which both have looked their action
  up before either has committed; then the first call runs to its end, then the
  second. Every statement reads what is committed when it runs (read committed, the
  default of the PostgreSQL store that the README names). \<^verbatim>\<open>Action.findOne\<close> takes no
  lock, so the second lookup does not wait; \<^verbatim>\<open>Score.findOne\<close> takes the row lock, so
  the second call reads the score after the first has committed.
\<close>

definition overlapped ::
  "('lb, 'r) env \<Rightarrow> ('lb, 'r) state \<Rightarrow> call \<Rightarrow> call
     \<Rightarrow> ((error + 'r update_result) \<times> (error + 'r update_result)) \<times> ('lb, 'r) state" where
  "overlapped env s c1 c2 =
     (let found1 = validateActionToken (c_now c1) (actions s) (c_token c1)
                     (actionId (c_request c1)) (userId (c_request c1));
          found2 = validateActionToken (c_now c2) (actions s) (c_token c2)
                     (actionId (c_request c2)) (userId (c_request c2));
          (r1, s1) = (case found1 of
                        Inl e \<Rightarrow> (Inl (rethrown False e), s)
                      | Inr action \<Rightarrow>
                          continueUpdate env (c_now c1) (c_fault c1) s (c_request c1) action);
          (r2, s2) = (case found2 of
                        Inl e \<Rightarrow> (Inl (rethrown False e), s1)
                      | Inr action \<Rightarrow>
                          continueUpdate env (c_now c2) (c_fault c2) s1 (c_request c2) action)
      in ((r1, r2), s2))"

subsection \<open>The leaderboard query\<close>

text \<open>
  \<^verbatim>\<open>calculateLeaderboard\<close> asks the store for the rows of \<^verbatim>\<open>Score\<close> ordered by the one
  key \<^verbatim>\<open>currentScore\<close>, descending, and keeps ten. The argument is the table as the
  sequence of rows in which the store holds it; rows with equal keys stay in that
  sequence (a stable sort), since the query names no second key.
\<close>

record board_row =
  b_userId :: string
  b_username :: string
  b_currentScore :: int

definition calculateLeaderboard :: "board_row list \<Rightarrow> board_row list" where
  "calculateLeaderboard rows = take 10 (sort_key (\<lambda>r. - b_currentScore r) rows)"

subsection \<open>Consumed tokens\<close>

text \<open>
  A token is pending when its row exists with status \<^verbatim>\<open>pending\<close>. A history is
  consumed when its rows name different actions, none of them pending.
\<close>

definition isPending :: "(string \<rightharpoonup> action_row) \<Rightarrow> string \<Rightarrow> bool" where
  "isPending tbl aid = (case tbl aid of None \<Rightarrow> False | Some a \<Rightarrow> a_status a = Pending)"

definition history_consumed :: "('lb, 'r) state \<Rightarrow> bool" where
  "history_consumed s =
     (distinct (map h_actionId (history s)) \<and>
      list_all (\<lambda>h. \<not> isPending (actions s) (h_actionId h)) (history s))"

subsection \<open>Example values\<close>

text \<open>
  The values at which the theorems below are instantiated. The digest, the text of a
  number and the leaderboard service are parameters of the model; the examples take
  the identity for the digest, the decimal digits for the text of a number (what a
  template string gives for an integer below \<open>10\<^sup>2\<^sup>1\<close>) and a list of user and
  score for the leaderboard, the rank of a user being one more than the number of
  entries with a higher score.
\<close>

fun digits :: "nat \<Rightarrow> string" where
  "digits n =
     (if n < 10 then [''0123456789'' ! n]
      else digits (n div 10) @ [''0123456789'' ! (n mod 10)])"

declare digits.simps [simp del]

definition decimal_text :: "int \<Rightarrow> string" where
  "decimal_text i = (if i < 0 then ''-'' @ digits (nat (- i)) else digits (nat i))"

definition example_rank :: "(string \<times> int) list \<Rightarrow> string \<Rightarrow> nat option" where
  "example_rank lb u =
     (case map_of lb u of
        None \<Rightarrow> None
      | Some sc \<Rightarrow> Some (1 + length (filter (\<lambda>p. snd p > sc) lb)))"

definition example_update ::
  "(string \<times> int) list \<Rightarrow> string \<Rightarrow> int \<Rightarrow> nat option \<times> (string \<times> int) list" where
  "example_update lb u sc =
     (let lb' = (u, sc) # filter (\<lambda>p. fst p \<noteq> u) lb in (example_rank lb' u, lb'))"

definition example_env :: "((string \<times> int) list, nat option) env" where
  "example_env =
     \<lparr>sha256_hex = (\<lambda>text. text), number_text = decimal_text, CHECKSUM_SECRET = ''k'',
      getUserRank = example_rank, updateUserScore = example_update\<rparr>"

definition example_action :: "string \<Rightarrow> action_row" where
  "example_action token =
     \<lparr>a_userId = ''alice'', a_actionType = ''click'', a_status = Pending, a_token = token,
      a_createdAt = 0, a_expiresAt = 300000, a_completedAt = None\<rparr>"

definition example_row :: "int \<Rightarrow> score_row" where
  "example_row sc = \<lparr>currentScore = sc, totalActions = 0, lastUpdated = 0\<rparr>"

definition example_state :: "int \<Rightarrow> ((string \<times> int) list, nat option) state" where
  "example_state sc =
     \<lparr>scores = [''alice'' \<mapsto> example_row sc],
      history = [],
      actions = [''a1'' \<mapsto> example_action ''t1'', ''a2'' \<mapsto> example_action ''t2''],
      last_action = Map.empty, action_count = Map.empty, suspicious = Map.empty,
      user_score = Map.empty,
      leaderboard = [(''alice'', sc), (''bob'', 500)],
      published = []\<rparr>"

definition example_request :: "string \<Rightarrow> int \<Rightarrow> int \<Rightarrow> score_update_request" where
  "example_request aid inc ts =
     \<lparr>userId = ''alice'', actionId = aid, scoreIncrement = inc, timestamp = ts,
      meta = \<lparr>actionType = ''click'', duration = 10,
              checksum = ''alice:click:'' @ decimal_text inc @ '':k''\<rparr>\<rparr>"


definition example_call :: "int \<Rightarrow> string \<Rightarrow> int \<Rightarrow> int \<Rightarrow> string \<Rightarrow> call" where
  "example_call now aid inc ts token =
     \<lparr>c_now = now, c_fault = None, c_request = example_request aid inc ts, c_token = token\<rparr>"

definition forged_request :: validation_request where
  "forged_request =
     \<lparr>v_userId = ''alice'', v_scoreIncrement = 150, v_actionType = ''click'',
      v_timestamp = 1000, v_checksum = ''forged''\<rparr>"

definition board :: "string \<Rightarrow> int \<Rightarrow> board_row" where
  "board u sc = \<lparr>b_userId = u, b_username = u, b_currentScore = sc\<rparr>"

definition example_board :: "board_row list" where
  "example_board =
     [board ''K'' 1, board ''B'' 500, board ''A'' 500, board ''C'' 300, board ''D'' 250,
      board ''E'' 200, board ''F'' 150, board ''G'' 100, board ''H'' 50, board ''I'' 20,
      board ''J'' 10]"

section \<open>Properties\<close>

subsection \<open>What one call of \<open>updateScore\<close> does to the tables\<close>

text \<open>
  A call that commits writes the new score, one history row and the completed action,
  and then throws; a call that does not commit leaves the three tables as they were.
\<close>

lemma validateScoreUpdate_tables:
  "validateScoreUpdate env now s r = (b, s1) \<Longrightarrow>
     scores s1 = scores s \<and> history s1 = history s \<and> actions s1 = actions s \<and>
     leaderboard s1 = leaderboard s \<and> published s1 = published s \<and>
     suspicious s1 = suspicious s \<and> user_score s1 = user_score s"
  by (auto simp: validateScoreUpdate_def recordAction_def Let_def split: if_splits)

lemma flagSuspiciousActivity_tables:
  "scores (flagSuspiciousActivity now s u r) = scores s \<and>
   history (flagSuspiciousActivity now s u r) = history s \<and>
   actions (flagSuspiciousActivity now s u r) = actions s"
  by (simp add: flagSuspiciousActivity_def)

lemma validateActionToken_eq:
  "validateActionToken now tbl token aid uid =
     (case tbl aid of
        None \<Rightarrow> Inl InvalidOrExpiredActionToken
      | Some a \<Rightarrow>
          if a_userId a = uid \<and> a_token a = token \<and> a_status a = Pending \<and>
             now \<le> a_expiresAt a
          then Inr a else Inl InvalidOrExpiredActionToken)"
  by (auto simp: validateActionToken_def findPendingAction_def split: option.splits)

lemma validateActionToken_Inr:
  "validateActionToken now tbl tok aid uid = Inr a \<Longrightarrow>
     tbl aid = Some a \<and> a_userId a = uid \<and> a_token a = tok \<and> a_status a = Pending \<and>
     now \<le> a_expiresAt a"
  by (auto simp: validateActionToken_eq split: option.splits if_splits)

lemma validateActionToken_Inl:
  "validateActionToken now tbl tok aid uid = Inl e \<Longrightarrow> e = InvalidOrExpiredActionToken"
  by (auto simp: validateActionToken_eq split: option.splits if_splits)

lemma continueUpdate_commits:
  assumes "fst (validateScoreUpdate env now s (validation_of request))"
    and "scores s (userId request) = Some row"
    and "fault = None \<or> fault = Some FindAction"
  shows "\<exists>s'. continueUpdate env now fault s request action = (Inl TransactionFinished, s') \<and>
      scores s' = (scores s)(userId request \<mapsto>
              row\<lparr>currentScore := currentScore row + scoreIncrement request, lastUpdated := now,
                  totalActions := totalActions row + 1\<rparr>) \<and>
      history s' = history s @
             [\<lparr>h_userId = userId request, h_actionId = actionId request,
               h_scoreChange = scoreIncrement request, h_previousScore = currentScore row,
               h_newScore = currentScore row + scoreIncrement request,
               h_timestamp = timestamp request, h_metadata = meta request\<rparr>] \<and>
      actions s' = (actions s)(actionId request \<mapsto>
              action\<lparr>a_status := Completed, a_completedAt := Some now\<rparr>) \<and>
      published s' = published s"
proof (cases "validateScoreUpdate env now s (validation_of request)")
  case (Pair b s1)
  note t = validateScoreUpdate_tables [OF Pair]
  from assms Pair t show ?thesis
    by (auto simp: continueUpdate_def Let_def commitUpdate_def updateScoreCache_def
                   findScore_def rethrown_def
             split: prod.splits)
qed

lemma continueUpdate_aborts:
  assumes "\<not> (fst (validateScoreUpdate env now s (validation_of request)) \<and>
               scores s (userId request) \<noteq> None \<and>
               (fault = None \<or> fault = Some FindAction))"
  shows "\<exists>e s'. continueUpdate env now fault s request action = (Inl e, s') \<and>
      scores s' = scores s \<and> history s' = history s \<and> actions s' = actions s \<and>
      published s' = published s \<and>
      (e = TransactionFinished \<longrightarrow> fault = Some Commit) \<and>
      (e = StoreConflict \<longrightarrow> fault \<noteq> None) \<and> e \<noteq> TypeError"
proof (cases "validateScoreUpdate env now s (validation_of request)")
  case (Pair b s1)
  note t = validateScoreUpdate_tables [OF Pair]
  show ?thesis
  proof (cases fault)
    case None
    with assms Pair t show ?thesis
      by (auto simp: continueUpdate_def Let_def findScore_def rethrown_def
                     flagSuspiciousActivity_def
               split: prod.splits option.splits)
  next
    case (Some step)
    with assms Pair t show ?thesis
      by (cases step)
         (auto simp: continueUpdate_def Let_def findScore_def rethrown_def
                     flagSuspiciousActivity_def
               split: prod.splits option.splits)
  qed
qed

lemma updateScore_commits:
  assumes "commits env now fault s request token"
  shows "\<exists>action row s'.
      validateActionToken now (actions s) token (actionId request) (userId request) = Inr action \<and>
      scores s (userId request) = Some row \<and>
      updateScore env now fault s request token = (Inl TransactionFinished, s') \<and>
      scores s' = (scores s)(userId request \<mapsto>
              row\<lparr>currentScore := currentScore row + scoreIncrement request, lastUpdated := now,
                  totalActions := totalActions row + 1\<rparr>) \<and>
      history s' = history s @
             [\<lparr>h_userId = userId request, h_actionId = actionId request,
               h_scoreChange = scoreIncrement request, h_previousScore = currentScore row,
               h_newScore = currentScore row + scoreIncrement request,
               h_timestamp = timestamp request, h_metadata = meta request\<rparr>] \<and>
      actions s' = (actions s)(actionId request \<mapsto>
              action\<lparr>a_status := Completed, a_completedAt := Some now\<rparr>) \<and>
      published s' = published s"
proof -
  from assms obtain action row where
    f: "fault = None"
    and va: "validateActionToken now (actions s) token (actionId request) (userId request) = Inr action"
    and ok: "fst (validateScoreUpdate env now s (validation_of request))"
    and row: "scores s (userId request) = Some row"
    by (auto simp: commits_def passesChecks_def split: sum.splits)
  from continueUpdate_commits [OF ok row, of fault action] f va row show ?thesis
    by (auto simp: updateScore_def)
qed

lemma updateScore_aborts:
  assumes "\<not> commits env now fault s request token"
  shows "\<exists>e s'. updateScore env now fault s request token = (Inl e, s') \<and>
      scores s' = scores s \<and> history s' = history s \<and> actions s' = actions s \<and>
      published s' = published s \<and>
      (e = TransactionFinished \<longrightarrow> fault = Some Commit) \<and>
      (e = StoreConflict \<longrightarrow> fault \<noteq> None) \<and> e \<noteq> TypeError"
proof (cases "fault = Some FindAction")
  case True
  then show ?thesis by (simp add: updateScore_def rethrown_def)
next
  case nf: False
  show ?thesis
  proof (cases "validateActionToken now (actions s) token (actionId request) (userId request)")
    case (Inl e)
    with nf validateActionToken_Inl [OF Inl] show ?thesis
      by (simp add: updateScore_def rethrown_def)
  next
    case (Inr action)
    with assms nf have "\<not> (fst (validateScoreUpdate env now s (validation_of request)) \<and>
               scores s (userId request) \<noteq> None \<and>
               (fault = None \<or> fault = Some FindAction))"
      by (auto simp: commits_def passesChecks_def)
    from continueUpdate_aborts [OF this, of action] Inr nf show ?thesis
      by (simp add: updateScore_def)
  qed
qed

lemma updateScore_no_result:
  "\<exists>e. fst (updateScore env now fault s request token) = Inl e"
  using updateScore_commits [of env now fault s request token]
        updateScore_aborts [of env now fault s request token]
  by (cases "commits env now fault s request token") auto

lemma commits_pending:
  "commits env now fault s request token \<Longrightarrow> isPending (actions s) (actionId request)"
  by (auto simp: commits_def passesChecks_def isPending_def
           split: sum.splits dest!: validateActionToken_Inr)

lemma updateScore_completed:
  assumes "commits env now fault s request token"
  shows "\<exists>a'. actions (snd (updateScore env now fault s request token)) (actionId request)
            = Some a' \<and> a_status a' = Completed"
  using updateScore_commits [OF assms] by auto

lemma updateScore_keeps_consumed:
  assumes "\<not> isPending (actions s) a"
  shows "\<not> isPending (actions (snd (updateScore env now fault s request token))) a"
proof (cases "commits env now fault s request token")
  case True
  from updateScore_commits [OF True] commits_pending [OF True] assms show ?thesis
    by (auto simp: isPending_def split: if_splits)
next
  case False
  from updateScore_aborts [OF False] assms show ?thesis by auto
qed

lemma accepted_not_consumed:
  "\<not> isPending (actions s) a \<Longrightarrow> a \<notin> actionId ` set (accepted env s cs)"
proof (induction cs arbitrary: s)
  case Nil
  then show ?case by simp
next
  case (Cons c cs)
  from Cons.prems have keep: "\<not> isPending (actions (snd (submit env s c))) a"
    unfolding submit_def by (rule updateScore_keeps_consumed)
  show ?case
  proof (cases "commits env (c_now c) (c_fault c) s (c_request c) (c_token c)")
    case True
    from commits_pending [OF True] Cons.prems have "actionId (c_request c) \<noteq> a" by auto
    with True Cons.IH [OF keep] show ?thesis by auto
  next
    case False
    with Cons.IH [OF keep] show ?thesis by simp
  qed
qed

lemma distinct_accepted: "distinct (map actionId (accepted env s cs))"
proof (induction cs arbitrary: s)
  case Nil
  then show ?case by simp
next
  case (Cons c cs)
  show ?case
  proof (cases "commits env (c_now c) (c_fault c) s (c_request c) (c_token c)")
    case True
    from updateScore_completed [OF True]
    have "\<not> isPending (actions (snd (submit env s c))) (actionId (c_request c))"
      by (auto simp: submit_def isPending_def)
    then have "actionId (c_request c) \<notin> actionId ` set (accepted env (snd (submit env s c)) cs)"
      by (rule accepted_not_consumed)
    with True Cons.IH [of "snd (submit env s c)"] show ?thesis by simp
  next
    case False
    with Cons.IH [of "snd (submit env s c)"] show ?thesis by simp
  qed
qed

lemma history_run:
  "map h_actionId (history (run env s cs)) =
     map h_actionId (history s) @ map actionId (accepted env s cs)"
proof (induction cs arbitrary: s)
  case Nil
  then show ?case by simp
next
  case (Cons c cs)
  show ?case
  proof (cases "commits env (c_now c) (c_fault c) s (c_request c) (c_token c)")
    case True
    from updateScore_commits [OF True] obtain h where
      "history (snd (submit env s c)) = history s @ [h]" "h_actionId h = actionId (c_request c)"
      by (auto simp: submit_def)
    with True Cons.IH [of "snd (submit env s c)"] show ?thesis by simp
  next
    case False
    from updateScore_aborts [OF False] have "history (snd (submit env s c)) = history s"
      by (auto simp: submit_def)
    with False Cons.IH [of "snd (submit env s c)"] show ?thesis by simp
  qed
qed

lemma score_run:
  "scores s u = Some row \<Longrightarrow>
     \<exists>row'. scores (run env s cs) u = Some row' \<and>
       currentScore row' =
         currentScore row +
         sum_list (map scoreIncrement (filter (\<lambda>q. userId q = u) (accepted env s cs)))"
proof (induction cs arbitrary: s row)
  case Nil
  then show ?case by simp
next
  case (Cons c cs)
  let ?s' = "snd (submit env s c)"
  show ?case
  proof (cases "commits env (c_now c) (c_fault c) s (c_request c) (c_token c)")
    case False
    from updateScore_aborts [OF False] have "scores ?s' = scores s"
      by (auto simp: submit_def)
    with Cons.prems have "scores ?s' u = Some row" by simp
    from Cons.IH [OF this] False show ?thesis by simp
  next
    case True
    from updateScore_commits [OF True] obtain row0 where
      r0: "scores s (userId (c_request c)) = Some row0"
      and upd: "scores ?s' = (scores s)(userId (c_request c) \<mapsto>
              row0\<lparr>currentScore := currentScore row0 + scoreIncrement (c_request c),
                   lastUpdated := c_now c, totalActions := totalActions row0 + 1\<rparr>)"
      by (auto simp: submit_def)
    show ?thesis
    proof (cases "userId (c_request c) = u")
      case same: True
      with r0 Cons.prems have "row0 = row" by simp
      with upd same have "scores ?s' u =
         Some (row\<lparr>currentScore := currentScore row + scoreIncrement (c_request c),
                   lastUpdated := c_now c, totalActions := totalActions row + 1\<rparr>)"
        by simp
      from Cons.IH [OF this] True same show ?thesis by (simp add: add.assoc)
    next
      case other: False
      with upd Cons.prems have "scores ?s' u = Some row" by simp
      from Cons.IH [OF this] True other show ?thesis by simp
    qed
  qed
qed

lemma history_consumed_run:
  assumes "history_consumed s"
  shows "distinct (map h_actionId (history (run env s cs)))"
proof -
  from assms have d: "distinct (map h_actionId (history s))"
    and np: "\<forall>h \<in> set (history s). \<not> isPending (actions s) (h_actionId h)"
    by (auto simp: history_consumed_def list_all_iff)
  have "h_actionId ` set (history s) \<inter> actionId ` set (accepted env s cs) = {}"
    using np accepted_not_consumed [of s _ env cs] by blast
  with d distinct_accepted [of env s cs] show ?thesis
    by (simp add: history_run)
qed

lemma recordAction_last:
  "now' < now + 3600000 \<Longrightarrow>
   getLastActionTime now' (recordAction now s r) (v_userId r) = Some (v_timestamp r)"
  by (simp add: getLastActionTime_def recordAction_def redis_get_def redis_setex_def Let_def)

lemma recordAction_count:
  "getActionCount now (recordAction now s r) (v_userId r) w =
     getActionCount now s (v_userId r) w + 1"
  by (auto simp: getActionCount_def recordAction_def redis_get_def redis_incr_def
        redis_expire_def Let_def split: option.splits if_splits prod.splits)


subsection \<open>Calls that run one after the other\<close>

text \<open>
  When the calls run one after the other, every user's score is the score before
  plus the sum of the increments of exactly the committed calls of that user; the
  history grows by one row for each committed call, in order; no two committed calls
  name the same action; and from a consumed history no two rows of the resulting
  history name the same action.
\<close>

lemma sequential_conservation:
  assumes "scores s u = Some row"
  shows "(\<exists>row'. scores (run env s cs) u = Some row' \<and>
            currentScore row' =
              currentScore row +
              sum_list (map scoreIncrement (filter (\<lambda>q. userId q = u) (accepted env s cs)))) \<and>
         map h_actionId (history (run env s cs)) =
           map h_actionId (history s) @ map actionId (accepted env s cs) \<and>
         distinct (map actionId (accepted env s cs)) \<and>
         (history_consumed s \<longrightarrow> distinct (map h_actionId (history (run env s cs))))"
  using score_run [OF assms, of env cs] history_run [of env s cs]
    distinct_accepted [of env s cs] history_consumed_run [of s env cs]
  by blast

subsection \<open>Calls that overlap\<close>

text \<open>
  Claim C1. The score is not conserved when two calls overlap. Alice has score 100
  and an empty history. Two calls present the same action \<open>a1\<close> with the same token,
  each with increment 50; both look the action up before either has committed, and
  both find it pending. The first commits 150, the second then reads 150 and commits
  200: the one token has been applied twice, and two history rows name the action
  \<open>a1\<close>. The same two calls one after the other leave 150 and one history row.
\<close>

theorem overlapped_double_apply:
  "scores (example_state 100) ''alice'' = Some (example_row 100) \<and>
   history (example_state 100) = [] \<and>
   scores (snd (overlapped example_env (example_state 100)
                  (example_call 2000 ''a1'' 50 1000 ''t1'')
                  (example_call 2001 ''a1'' 50 2000 ''t1''))) ''alice'' =
     Some \<lparr>currentScore = 200, totalActions = 2, lastUpdated = 2001\<rparr> \<and>
   map h_actionId (history (snd (overlapped example_env (example_state 100)
                  (example_call 2000 ''a1'' 50 1000 ''t1'')
                  (example_call 2001 ''a1'' 50 2000 ''t1'')))) = [''a1'', ''a1''] \<and>
   map h_scoreChange (history (snd (overlapped example_env (example_state 100)
                  (example_call 2000 ''a1'' 50 1000 ''t1'')
                  (example_call 2001 ''a1'' 50 2000 ''t1'')))) = [50, 50] \<and>
   scores (run example_env (example_state 100)
             [example_call 2000 ''a1'' 50 1000 ''t1'',
              example_call 2001 ''a1'' 50 2000 ''t1'']) ''alice'' =
     Some \<lparr>currentScore = 150, totalActions = 1, lastUpdated = 2000\<rparr> \<and>
   map h_actionId (history (run example_env (example_state 100)
             [example_call 2000 ''a1'' 50 1000 ''t1'',
              example_call 2001 ''a1'' 50 2000 ''t1''])) = [''a1'']"
  by code_simp

subsection \<open>A call that fails before the commit changes no table\<close>



subsection \<open>The expiry window of a token\<close>

text \<open>
  Claim C10. For every user, action type, clock reading and prior state in which the
  identifier is free, \<open>generateActionToken\<close> returns a grant that expires exactly
  300000 milliseconds after the clock reading and stores the action with status
  pending and that same expiry.
\<close>

theorem generateActionToken_window:
  assumes "actions s uuid = None"
  shows "\<exists>grant s'. generateActionToken now uuid hex s uid kind = (Inr grant, s') \<and>
           g_actionId grant = uuid \<and> g_token grant = hex \<and>
           g_expiresAt grant = now + 300000 \<and>
           (\<exists>a. actions s' uuid = Some a \<and> a_status a = Pending \<and>
                 a_expiresAt a = now + 300000 \<and> a_userId a = uid \<and>
                 a_actionType a = kind \<and> a_token a = hex)"
  using assms by (simp add: generateActionToken_def Let_def)

theorem generateActionToken_window_witness:
  "actions (example_state 100) ''a3'' = None \<and>
   (\<exists>grant s'. generateActionToken 5000 ''a3'' ''t3'' (example_state 100) ''alice'' ''click''
        = (Inr grant, s') \<and>
      g_actionId grant = ''a3'' \<and> g_token grant = ''t3'' \<and> g_expiresAt grant = 305000 \<and>
      (\<exists>a. actions s' ''a3'' = Some a \<and> a_status a = Pending \<and> a_expiresAt a = 305000 \<and>
            a_userId a = ''alice'' \<and> a_actionType a = ''click'' \<and> a_token a = ''t3''))"
proof -
  have fresh: "actions (example_state 100) ''a3'' = None"
    by (simp add: example_state_def)
  from generateActionToken_window [OF fresh, of 5000 "''t3''" "''alice''" "''click''"] fresh
  show ?thesis by simp
qed

subsection \<open>A token presented again\<close>




subsection \<open>When a token is consumed\<close>

text \<open>
  Claim C4, as the code has it. For a pending action, \<open>validateActionToken\<close> returns
  the row exactly when the user and the token match and the clock is not past
  \<^verbatim>\<open>expiresAt\<close> (\<open>now \<le> expiresAt\<close>: at the expiry instant itself the token is
  still good); otherwise it fails with the one error \<open>InvalidOrExpiredActionToken\<close>.
  The status becomes \<^verbatim>\<open>completed\<close> in \<open>updateScore\<close> exactly when, moreover, the
  anti-cheat check accepts, the score row exists and the store raises no error.
\<close>

theorem token_consumed_iff:
  assumes "actions s (actionId request) = Some a" and "a_status a = Pending"
  shows "validateActionToken now (actions s) token (actionId request) (userId request) =
           (if a_userId a = userId request \<and> a_token a = token \<and> now \<le> a_expiresAt a
            then Inr a else Inl InvalidOrExpiredActionToken) \<and>
         ((\<exists>a'. actions (snd (updateScore env now fault s request token)) (actionId request)
                  = Some a' \<and> a_status a' = Completed) \<longleftrightarrow>
          (a_userId a = userId request \<and> a_token a = token \<and> now \<le> a_expiresAt a \<and>
           fst (validateScoreUpdate env now s (validation_of request)) \<and>
           scores s (userId request) \<noteq> None \<and> fault = None))"
proof -
  let ?out = "updateScore env now fault s request token"
  let ?ok = "a_userId a = userId request \<and> a_token a = token \<and> now \<le> a_expiresAt a \<and>
           fst (validateScoreUpdate env now s (validation_of request)) \<and>
           scores s (userId request) \<noteq> None \<and> fault = None"
  have v: "validateActionToken now (actions s) token (actionId request) (userId request) =
           (if a_userId a = userId request \<and> a_token a = token \<and> now \<le> a_expiresAt a
            then Inr a else Inl InvalidOrExpiredActionToken)"
    using assms by (simp add: validateActionToken_eq)
  have c: "commits env now fault s request token \<longleftrightarrow> ?ok"
    by (auto simp: commits_def passesChecks_def v)
  have "(\<exists>a'. actions (snd ?out) (actionId request) = Some a' \<and> a_status a' = Completed)
          \<longleftrightarrow> ?ok"
  proof (cases "commits env now fault s request token")
    case True
    from updateScore_completed [OF True] True c show ?thesis by blast
  next
    case False
    from updateScore_aborts [OF False] have "actions (snd ?out) = actions s" by auto
    with assms False c show ?thesis by auto
  qed
  with v show ?thesis by simp
qed

theorem expiry_instant_counterexample:
  "a_expiresAt (example_action ''t1'') = 300000 \<and>
   validateActionToken 300000 (actions (example_state 100)) ''t1'' ''a1'' ''alice'' =
     Inr (example_action ''t1'') \<and>
   actions (snd (updateScore example_env 300000 None (example_state 100)
                   (example_request ''a1'' 50 1000) ''t1'')) ''a1'' =
     Some ((example_action ''t1'')\<lparr>a_status := Completed, a_completedAt := Some 300000\<rparr>) \<and>
   validateActionToken 300001 (actions (example_state 100)) ''t1'' ''a1'' ''alice'' =
     Inl InvalidOrExpiredActionToken \<and>
   validateActionToken 2000 (actions (example_state 100)) ''wrong'' ''a1'' ''alice'' =
     Inl InvalidOrExpiredActionToken"
  by code_simp

theorem token_consumed_iff_witness:
  "actions (example_state 100) (actionId (example_request ''a1'' 50 1000)) =
      Some (example_action ''t1'') \<and>
   a_status (example_action ''t1'') = Pending \<and>
   validateActionToken 300000 (actions (example_state 100)) ''t1''
      (actionId (example_request ''a1'' 50 1000)) (userId (example_request ''a1'' 50 1000)) =
      Inr (example_action ''t1'') \<and>
   (\<exists>a'. actions (snd (updateScore example_env 300000 None (example_state 100)
                          (example_request ''a1'' 50 1000) ''t1''))
             (actionId (example_request ''a1'' 50 1000)) = Some a' \<and>
         a_status a' = Completed)"
proof -
  have h1: "actions (example_state 100) (actionId (example_request ''a1'' 50 1000)) =
      Some (example_action ''t1'')"
    by (simp add: example_state_def example_request_def)
  have h2: "a_status (example_action ''t1'') = Pending"
    by (simp add: example_action_def)
  have c1: "a_userId (example_action ''t1'') = userId (example_request ''a1'' 50 1000) \<and>
            a_token (example_action ''t1'') = ''t1'' \<and>
            300000 \<le> a_expiresAt (example_action ''t1'')"
    by (simp add: example_action_def example_request_def)
  have c2: "fst (validateScoreUpdate example_env 300000 (example_state 100)
                   (validation_of (example_request ''a1'' 50 1000)))"
    by code_simp
  have c3: "scores (example_state 100) (userId (example_request ''a1'' 50 1000)) \<noteq> None"
    by (simp add: example_state_def example_request_def)
  from token_consumed_iff [OF h1 h2, of 300000 "''t1''" example_env None] h1 h2 c1 c2 c3
  show ?thesis by simp
qed

subsection \<open>An error of the store\<close>

text \<open>
  Claim C5, as the code has it. \<open>updateScore\<close> runs its transaction once. When a
  statement before the commit raises an error in a call that passes the checks, the
  call rolls back and fails with that same error at once, whatever the statement:
  nothing is run again, and the three tables are as before the call.
\<close>

theorem store_conflict_surfaces:
  assumes "passesChecks env now s request token" and "step \<noteq> Commit"
  shows "fst (updateScore env now (Some step) s request token) = Inl StoreConflict \<and>
         scores (snd (updateScore env now (Some step) s request token)) = scores s \<and>
         history (snd (updateScore env now (Some step) s request token)) = history s \<and>
         actions (snd (updateScore env now (Some step) s request token)) = actions s"
proof -
  from assms(1) obtain action row where
    va: "validateActionToken now (actions s) token (actionId request) (userId request) = Inr action"
    and ok: "fst (validateScoreUpdate env now s (validation_of request))"
    and row: "scores s (userId request) = Some row"
    by (auto simp: passesChecks_def split: sum.splits)
  obtain b s1 where vs: "validateScoreUpdate env now s (validation_of request) = (b, s1)"
    by (cases "validateScoreUpdate env now s (validation_of request)")
  note t = validateScoreUpdate_tables [OF vs]
  from va ok row vs t assms(2)
  have e: "fst (updateScore env now (Some step) s request token) = Inl StoreConflict"
    by (cases step)
       (simp_all add: updateScore_def continueUpdate_def findScore_def rethrown_def Let_def)
  have "\<not> commits env now (Some step) s request token"
    by (simp add: commits_def)
  from updateScore_aborts [OF this] e show ?thesis by auto
qed

theorem store_conflict_surfaces_witness:
  "passesChecks example_env 2000 (example_state 100) (example_request ''a1'' 50 1000) ''t1'' \<and>
   fst (updateScore example_env 2000 (Some UpdateAction) (example_state 100)
          (example_request ''a1'' 50 1000) ''t1'') = Inl StoreConflict \<and>
   scores (snd (updateScore example_env 2000 (Some UpdateAction) (example_state 100)
          (example_request ''a1'' 50 1000) ''t1'')) = scores (example_state 100)"
proof -
  have a: "passesChecks example_env 2000 (example_state 100)
             (example_request ''a1'' 50 1000) ''t1''"
    by code_simp
  have b: "UpdateAction \<noteq> Commit" by simp
  from store_conflict_surfaces [OF a b] a show ?thesis by simp
qed

theorem store_conflict_counterexample:
  "scores (snd (updateScore example_env 2000 None (example_state 100)
          (example_request ''a1'' 50 1000) ''t1'')) ''alice'' =
     Some \<lparr>currentScore = 150, totalActions = 1, lastUpdated = 2000\<rparr> \<and>
   fst (updateScore example_env 2000 (Some UpdateScore) (example_state 100)
          (example_request ''a1'' 50 1000) ''t1'') = Inl StoreConflict \<and>
   scores (snd (updateScore example_env 2000 (Some UpdateScore) (example_state 100)
          (example_request ''a1'' 50 1000) ''t1'')) ''alice'' = Some (example_row 100)"
  by code_simp

subsection \<open>The admission decision\<close>




subsection \<open>The rate counters\<close>

text \<open>
  Claim C7, as the code has it. The rate counters are written by \<open>recordAction\<close>,
  which runs only after all five checks have passed. A refused request leaves the
  whole state, and so both counters, as it was. An accepted request stores its
  timestamp as the last action time and adds one to the action count.
\<close>

theorem counters_only_on_accept:
  "(\<not> fst (validateScoreUpdate env now s r) \<longrightarrow> snd (validateScoreUpdate env now s r) = s) \<and>
   (fst (validateScoreUpdate env now s r) \<longrightarrow>
      snd (validateScoreUpdate env now s r) = recordAction now s r \<and>
      getLastActionTime now (snd (validateScoreUpdate env now s r)) (v_userId r) =
        Some (v_timestamp r) \<and>
      getActionCount now (snd (validateScoreUpdate env now s r)) (v_userId r) 3600 =
        getActionCount now s (v_userId r) 3600 + 1)"
proof -
  have "fst (validateScoreUpdate env now s r) \<Longrightarrow>
          snd (validateScoreUpdate env now s r) = recordAction now s r"
    by (auto simp: validateScoreUpdate_def split: if_splits)
  moreover have "\<not> fst (validateScoreUpdate env now s r) \<Longrightarrow>
          snd (validateScoreUpdate env now s r) = s"
    by (auto simp: validateScoreUpdate_def split: if_splits)
  ultimately show ?thesis
    using recordAction_last [of now now s r] recordAction_count [of now s r 3600]
    by auto
qed

theorem counters_only_on_accept_witness:
  "\<not> fst (validateScoreUpdate example_env 2000 (example_state 100) forged_request) \<and>
   snd (validateScoreUpdate example_env 2000 (example_state 100) forged_request) =
     example_state 100 \<and>
   fst (validateScoreUpdate example_env 2000 (example_state 100)
          (validation_of (example_request ''a1'' 50 1000))) \<and>
   getLastActionTime 2000
     (snd (validateScoreUpdate example_env 2000 (example_state 100)
          (validation_of (example_request ''a1'' 50 1000)))) ''alice'' = Some 1000 \<and>
   getActionCount 2000
     (snd (validateScoreUpdate example_env 2000 (example_state 100)
          (validation_of (example_request ''a1'' 50 1000)))) ''alice'' 3600 = 1"
proof -
  have a: "\<not> fst (validateScoreUpdate example_env 2000 (example_state 100) forged_request)"
    by code_simp
  have b: "fst (validateScoreUpdate example_env 2000 (example_state 100)
          (validation_of (example_request ''a1'' 50 1000)))"
    by code_simp
  have c: "getActionCount 2000 (example_state 100) ''alice'' 3600 = 0"
    by code_simp
  have d1: "v_userId (validation_of (example_request ''a1'' 50 1000)) = ''alice''"
    by (simp add: validation_of_def example_request_def)
  have d2: "v_timestamp (validation_of (example_request ''a1'' 50 1000)) = 1000"
    by (simp add: validation_of_def example_request_def)
  from counters_only_on_accept [of example_env 2000 "example_state 100" forged_request] a
  have x: "snd (validateScoreUpdate example_env 2000 (example_state 100) forged_request) =
     example_state 100"
    by blast
  from counters_only_on_accept [of example_env 2000 "example_state 100"
          "validation_of (example_request ''a1'' 50 1000)"] b
  have "getLastActionTime 2000
     (snd (validateScoreUpdate example_env 2000 (example_state 100)
          (validation_of (example_request ''a1'' 50 1000))))
       (v_userId (validation_of (example_request ''a1'' 50 1000))) =
       Some (v_timestamp (validation_of (example_request ''a1'' 50 1000))) \<and>
     getActionCount 2000
     (snd (validateScoreUpdate example_env 2000 (example_state 100)
          (validation_of (example_request ''a1'' 50 1000))))
       (v_userId (validation_of (example_request ''a1'' 50 1000))) 3600 =
     getActionCount 2000 (example_state 100)
       (v_userId (validation_of (example_request ''a1'' 50 1000))) 3600 + 1"
    by blast
  then have y: "getLastActionTime 2000
     (snd (validateScoreUpdate example_env 2000 (example_state 100)
          (validation_of (example_request ''a1'' 50 1000)))) ''alice'' = Some 1000 \<and>
   getActionCount 2000
     (snd (validateScoreUpdate example_env 2000 (example_state 100)
          (validation_of (example_request ''a1'' 50 1000)))) ''alice'' 3600 = 1"
    by (simp only: d1 d2 c) simp
  from a x b y show ?thesis by blast
qed

theorem rejected_attempt_counterexample:
  "fst (validateScoreUpdate example_env 2000 (example_state 100) forged_request) = False \<and>
   getLastActionTime 2001
     (snd (validateScoreUpdate example_env 2000 (example_state 100) forged_request))
     ''alice'' = None \<and>
   getActionCount 2001
     (snd (validateScoreUpdate example_env 2000 (example_state 100) forged_request))
     ''alice'' 3600 = 0 \<and>
   fst (validateScoreUpdate example_env 2001
          (snd (validateScoreUpdate example_env 2000 (example_state 100) forged_request))
          (validation_of (example_request ''a1'' 50 1001))) = True \<and>
   fst (validateScoreUpdate example_env 2001
          (snd (validateScoreUpdate example_env 2000 (example_state 100)
                  (validation_of (example_request ''a2'' 50 1000))))
          (validation_of (example_request ''a1'' 50 1001))) = False"
  by code_simp

subsection \<open>The result of a call\<close>

text \<open>
  Claim C8. No call of \<open>updateScore\<close> returns a result. A call that passes the checks
  commits, updates the score cache and the leaderboard, and then fails while it builds
  the event to publish, reading the name of a user that the instance does not carry;
  the rollback of the handler is rejected and its error is thrown. At the example the
  score 150 is committed, the call fails with \<open>TransactionFinished\<close> and nothing is
  published.
\<close>

theorem updateScore_returns_no_result:
  "(\<exists>e. fst (updateScore env now fault s request token) = Inl e) \<and>
   commits example_env 2000 None (example_state 100) (example_request ''a1'' 50 1000) ''t1'' \<and>
   fst (updateScore example_env 2000 None (example_state 100)
          (example_request ''a1'' 50 1000) ''t1'') = Inl TransactionFinished \<and>
   scores (snd (updateScore example_env 2000 None (example_state 100)
          (example_request ''a1'' 50 1000) ''t1'')) ''alice'' =
     Some \<lparr>currentScore = 150, totalActions = 1, lastUpdated = 2000\<rparr> \<and>
   published (snd (updateScore example_env 2000 None (example_state 100)
          (example_request ''a1'' 50 1000) ''t1'')) = []"
proof -
  have "commits example_env 2000 None (example_state 100) (example_request ''a1'' 50 1000) ''t1'' \<and>
   fst (updateScore example_env 2000 None (example_state 100)
          (example_request ''a1'' 50 1000) ''t1'') = Inl TransactionFinished \<and>
   scores (snd (updateScore example_env 2000 None (example_state 100)
          (example_request ''a1'' 50 1000) ''t1'')) ''alice'' =
     Some \<lparr>currentScore = 150, totalActions = 1, lastUpdated = 2000\<rparr> \<and>
   published (snd (updateScore example_env 2000 None (example_state 100)
          (example_request ''a1'' 50 1000) ''t1'')) = []"
    by code_simp
  with updateScore_no_result [of env now fault s request token] show ?thesis by blast
qed

subsection \<open>The order of the leaderboard\<close>

text \<open>
  Claim C9, as the code has it. The leaderboard is in descending order of score, has
  ten rows at most, all of them rows of the table, and no row left out has a higher
  score than a row kept. The query names no second key: rows of equal score come in
  the order in which the store holds them, not in the order of their user ids.
\<close>

theorem calculateLeaderboard_descending:
  "sorted_wrt (\<lambda>a b. b_currentScore a \<ge> b_currentScore b) (calculateLeaderboard rows) \<and>
   length (calculateLeaderboard rows) = min 10 (length rows) \<and>
   set (calculateLeaderboard rows) \<subseteq> set rows \<and>
   (\<forall>r \<in> set rows. r \<notin> set (calculateLeaderboard rows) \<longrightarrow>
      (\<forall>t \<in> set (calculateLeaderboard rows). b_currentScore r \<le> b_currentScore t))"
proof -
  let ?all = "sort_key (\<lambda>r. - b_currentScore r) rows"
  have "sorted (map (\<lambda>r. - b_currentScore r) ?all)" by (rule sorted_sort_key)
  then have sw: "sorted_wrt (\<lambda>a b. b_currentScore a \<ge> b_currentScore b) ?all"
    by (simp add: sorted_wrt_map)
  have split: "?all = take 10 ?all @ drop 10 ?all" by simp
  from sw have sw2: "sorted_wrt (\<lambda>a b. b_currentScore a \<ge> b_currentScore b)
      (take 10 ?all @ drop 10 ?all)" by simp
  then have top: "sorted_wrt (\<lambda>a b. b_currentScore a \<ge> b_currentScore b) (take 10 ?all)"
    and cross: "\<forall>t \<in> set (take 10 ?all). \<forall>r \<in> set (drop 10 ?all).
                  b_currentScore r \<le> b_currentScore t"
    unfolding sorted_wrt_append by auto
  have mem: "set rows = set (take 10 ?all) \<union> set (drop 10 ?all)"
    by (metis set_append set_sort split)
  have len: "length (take 10 ?all) = min 10 (length rows)" by simp
  from top cross mem len show ?thesis
    unfolding calculateLeaderboard_def by auto
qed

theorem calculateLeaderboard_descending_witness:
  "calculateLeaderboard example_board =
     [board ''B'' 500, board ''A'' 500, board ''C'' 300, board ''D'' 250, board ''E'' 200,
      board ''F'' 150, board ''G'' 100, board ''H'' 50, board ''I'' 20, board ''J'' 10] \<and>
   board ''K'' 1 \<in> set example_board \<and>
   board ''K'' 1 \<notin> set (calculateLeaderboard example_board) \<and>
   board ''J'' 10 \<in> set (calculateLeaderboard example_board) \<and>
   b_currentScore (board ''K'' 1) \<le> b_currentScore (board ''J'' 10) \<and>
   sorted_wrt (\<lambda>a b. b_currentScore a \<ge> b_currentScore b) (calculateLeaderboard example_board)"
proof -
  have a: "calculateLeaderboard example_board =
     [board ''B'' 500, board ''A'' 500, board ''C'' 300, board ''D'' 250, board ''E'' 200,
      board ''F'' 150, board ''G'' 100, board ''H'' 50, board ''I'' 20, board ''J'' 10]"
    by code_simp
  have b: "board ''K'' 1 \<in> set example_board"
    by (simp add: example_board_def)
  have c: "board ''K'' 1 \<notin> set (calculateLeaderboard example_board)"
    unfolding a by (simp add: board_def)
  have d: "board ''J'' 10 \<in> set (calculateLeaderboard example_board)"
    unfolding a by simp
  note th = calculateLeaderboard_descending [of example_board]
  from th b c d have e: "b_currentScore (board ''K'' 1) \<le> b_currentScore (board ''J'' 10)"
    by blast
  from th have f: "sorted_wrt (\<lambda>a b. b_currentScore a \<ge> b_currentScore b)
      (calculateLeaderboard example_board)"
    by blast
  from a b c d e f show ?thesis by blast
qed

text \<open>
  Two tables with the same rows, \<open>A\<close> and \<open>B\<close> both at 500: the leaderboard lists
  first the one the table holds first, \<open>B\<close> before \<open>A\<close> in the first table.
\<close>

theorem tie_order_counterexample:
  "calculateLeaderboard [board ''B'' 500, board ''A'' 500, board ''C'' 300] =
      [board ''B'' 500, board ''A'' 500, board ''C'' 300] \<and>
   calculateLeaderboard [board ''A'' 500, board ''B'' 500, board ''C'' 300] =
      [board ''A'' 500, board ''B'' 500, board ''C'' 300] \<and>
   ''A'' < ''B''"
  by code_simp

end
